theory Spec2Isabelle
  imports Complex_Main "HOL-Library.Monad_Syntax"
begin

section \<open>JavaScript numbers\<close>

text \<open>
  The controller computes with JavaScript numbers, which are binary doubles. A division
  or remainder by zero does not raise: it yields \<open>NaN\<close> or an infinity, and the program
  carries on with that value. A number is therefore a sum: the left injection is a
  non-finite value, the right one a finite value.

  The snap index is integer valued: a finite snap index is an \<open>int\<close>, and every sum or
  difference of snap indexes is rounded to the nearest double (\<open>dbl\<close>), so that counting
  stops at \<open>2 ^ 53\<close> as it does in the program. Measured widths, drag positions and
  tween values are modelled as \<open>real\<close> without rounding. Signed zeros are not modelled.
\<close>

datatype nonfinite = NaN | PosInfinity | NegInfinity

type_synonym 'a js = "nonfinite + 'a"

text \<open>\<open>x / y\<close> of the source.\<close>

definition js_div :: "real \<Rightarrow> real \<Rightarrow> real js" where
  "js_div x y =
     (if y \<noteq> 0 then Inr (x / y)
      else if 0 < x then Inl PosInfinity
      else if x < 0 then Inl NegInfinity
      else Inl NaN)"

text \<open>Rounding towards zero, as the quotient inside the remainder operator does.\<close>

definition js_trunc :: "real \<Rightarrow> int" where
  "js_trunc r = (if r < 0 then \<lceil>r\<rceil> else \<lfloor>r\<rfloor>)"

text \<open>\<open>x % m\<close> on numbers: the result has the sign of the dividend; \<open>x % 0\<close> is \<open>NaN\<close>.\<close>

definition js_rem :: "real \<Rightarrow> real \<Rightarrow> real js" where
  "js_rem x m = (if m = 0 then Inl NaN else Inr (x - m * of_int (js_trunc (x / m))))"

text \<open>\<open>a % n\<close> on finite integer valued numbers; the remainder is exact.\<close>

definition js_rem_int :: "int \<Rightarrow> int \<Rightarrow> int js" where
  "js_rem_int a n = (if n = 0 then Inl NaN else Inr (sgn a * (\<bar>a\<bar> mod \<bar>n\<bar>)))"

text \<open>\<open>Math.floor\<close> and \<open>Math.round\<close> (halves are rounded towards plus infinity);
  both return a non-finite argument unchanged.\<close>

definition Math_floor :: "real js \<Rightarrow> int js" where
  "Math_floor v = (case v of Inl e \<Rightarrow> Inl e | Inr r \<Rightarrow> Inr \<lfloor>r\<rfloor>)"

definition Math_round :: "real js \<Rightarrow> int js" where
  "Math_round v = (case v of Inl e \<Rightarrow> Inl e | Inr r \<Rightarrow> Inr \<lfloor>r + 1 / 2\<rfloor>)"

text \<open>The number of binary digits of a natural number.\<close>

fun bitlen :: "nat \<Rightarrow> nat" where
  "bitlen n = (if n = 0 then 0 else Suc (bitlen (n div 2)))"

declare bitlen.simps [simp del]

text \<open>
  The double nearest to an integer, ties to the even significand. Integers up to
  \<open>2 ^ 53\<close> in magnitude are doubles; beyond, a double has 53 significant binary digits,
  and a result of magnitude \<open>2 ^ 1024\<close> or more is an infinity.
\<close>

definition dbl :: "int \<Rightarrow> int js" where
  "dbl n =
     (if \<bar>n\<bar> \<le> 2 ^ 53 then Inr n
      else (let ulp = 2 ^ (bitlen (nat \<bar>n\<bar>) - 53);
                q = n div ulp;
                r = n mod ulp;
                m = (if 2 * r < ulp then q
                     else if 2 * r > ulp then q + 1
                     else if even q then q else q + 1) * ulp
            in if \<bar>m\<bar> \<ge> 2 ^ 1024
               then Inl (if 0 < n then PosInfinity else NegInfinity)
               else Inr m))"

definition negate :: "nonfinite \<Rightarrow> nonfinite" where
  "negate e = (case e of NaN \<Rightarrow> NaN | PosInfinity \<Rightarrow> NegInfinity | NegInfinity \<Rightarrow> PosInfinity)"

text \<open>\<open>a * -1\<close>, \<open>a + b\<close>, \<open>a - b\<close> and \<open>Math.abs(a)\<close> on integer valued numbers.\<close>

definition js_neg :: "int js \<Rightarrow> int js" where
  "js_neg a = (case a of Inl e \<Rightarrow> Inl (negate e) | Inr x \<Rightarrow> Inr (x * - 1))"

definition js_add :: "int js \<Rightarrow> int js \<Rightarrow> int js" where
  "js_add a b =
     (case a of
        Inr x \<Rightarrow> (case b of Inr y \<Rightarrow> dbl (x + y) | Inl e \<Rightarrow> Inl e)
      | Inl NaN \<Rightarrow> Inl NaN
      | Inl d \<Rightarrow> (case b of Inr y \<Rightarrow> Inl d | Inl e \<Rightarrow> (if e = d then Inl d else Inl NaN)))"

definition js_sub :: "int js \<Rightarrow> int js \<Rightarrow> int js" where
  "js_sub a b = js_add a (js_neg b)"

definition js_abs :: "int js \<Rightarrow> int js" where
  "js_abs a = (case a of Inr x \<Rightarrow> Inr \<bar>x\<bar> | Inl NaN \<Rightarrow> Inl NaN | Inl e \<Rightarrow> Inl PosInfinity)"

text \<open>\<open>a < b\<close>: a comparison with \<open>NaN\<close> is false.\<close>

definition js_less :: "int js \<Rightarrow> int js \<Rightarrow> bool" where
  "js_less a b =
     (case a of
        Inr x \<Rightarrow> (case b of Inr y \<Rightarrow> x < y | Inl e \<Rightarrow> e = PosInfinity)
      | Inl NegInfinity \<Rightarrow> (case b of Inr y \<Rightarrow> True | Inl e \<Rightarrow> e = PosInfinity)
      | Inl e \<Rightarrow> False)"

text \<open>\<open>a !== b\<close>: \<open>NaN\<close> differs from every number, itself included.\<close>

definition js_strict_neq :: "int js \<Rightarrow> int js \<Rightarrow> bool" where
  "js_strict_neq a b = (if a = Inl NaN then True else a \<noteq> b)"

text \<open>\<open>a * w\<close> for an integer valued \<open>a\<close> and a finite \<open>w\<close>: an infinity times zero is
  \<open>NaN\<close>.\<close>

definition js_times :: "int js \<Rightarrow> real \<Rightarrow> real js" where
  "js_times a w =
     (case a of
        Inr x \<Rightarrow> Inr (of_int x * w)
      | Inl NaN \<Rightarrow> Inl NaN
      | Inl d \<Rightarrow> (if w = 0 then Inl NaN else if 0 < w then Inl d else Inl (negate d)))"

text \<open>\<open>a % n\<close> for a number \<open>a\<close> that may be non-finite.\<close>

definition js_rem_num :: "int js \<Rightarrow> int \<Rightarrow> int js" where
  "js_rem_num a n = (case a of Inr x \<Rightarrow> js_rem_int x n | Inl e \<Rightarrow> Inl NaN)"

text \<open>\<open>clamp(number, lower, upper)\<close> of lodash: \<open>NaN\<close> is returned unchanged.\<close>

definition lodash_clamp :: "real js \<Rightarrow> real \<Rightarrow> real \<Rightarrow> real js" where
  "lodash_clamp v lower upper =
     (case v of
        Inr r \<Rightarrow> Inr (let r1 = (if r \<le> upper then r else upper)
                     in if lower \<le> r1 then r1 else lower)
      | Inl PosInfinity \<Rightarrow> Inr (if lower \<le> upper then upper else lower)
      | Inl NegInfinity \<Rightarrow> Inr lower
      | Inl NaN \<Rightarrow> Inl NaN)"

text \<open>\<open>array.indexOf(v)\<close>: the first position of \<open>v\<close>, or \<open>-1\<close>.\<close>

fun indexOf :: "'a list \<Rightarrow> 'a \<Rightarrow> int" where
  "indexOf [] v = -1"
| "indexOf (y # ys) v =
     (if y = v then 0 else (let i = indexOf ys v in if i < 0 then -1 else i + 1))"

text \<open>\<open>array.splice(i, 1)\<close>: removes the element at position \<open>i\<close>.\<close>

definition splice1 :: "'a list \<Rightarrow> nat \<Rightarrow> 'a list" where
  "splice1 xs i = take i xs @ drop (Suc i) xs"

section \<open>The carousel controller\<close>

subsection \<open>Events, options and state\<close>

text \<open>
  The events of \<open>CarouselEvent\<close>, with the payload the controller passes. The event
  dispatcher base class is modelled by the log of dispatched events.
\<close>

datatype carousel_event =
    CHANGE
  | ITEM_IN_VIEW int
  | ITEM_IN_VIEW_PROGRESS "real js" int
  | ITEM_OUT_VIEW int

record carousel_options =
  hideOverflowItems :: bool
  isInfinite :: bool
  isAutoplay :: bool
  autoplayTimeout :: real
  gotoAnimation_duration :: real

definition default_options :: carousel_options where
  "default_options =
     \<lparr>hideOverflowItems = True, isInfinite = True, isAutoplay = False,
      autoplayTimeout = 5000, gotoAnimation_duration = 0.8\<rparr>"

record bounds =
  maxX :: real
  minX :: real

text \<open>The draggable created on the proxy element: its position and the configuration
  that \<open>createDraggable\<close> passes.\<close>

record draggable =
  dragger_x :: real
  overshootTolerance :: int
  dragger_bounds :: "bounds option"

text \<open>A tween of the dragger's position as \<open>goto\<close> requests it from the animation
  library. Its callbacks \<open>onStart\<close> and \<open>onComplete\<close> are the functions
  \<open>goto_onStart\<close> and \<open>goto_onComplete\<close> below; \<open>onUpdate\<close> forwards the dragger's
  position to the looping animation, whose modifier is \<open>getAnimationModifier\<close>.\<close>

record tween =
  tween_duration :: real
  tween_delay :: real
  tween_x :: "real js"

type_synonym elem = nat

text \<open>What the document reports when the controller measures it.\<close>

record dom =
  wrapper_offsetWidth :: real
  offsetWidth :: "elem \<Rightarrow> real"
  offsetHeight :: "elem \<Rightarrow> real"

record carousel =
  carouselItems :: "elem list"
  itemWidth :: real
  itemHeight :: real
  viewWidth :: real
  animation :: "real option"
  dragger :: "draggable option"
  snapIndex :: "int js"
  previousSnapIndex :: "int js"
  inViewIndexes :: "int list"
  autoplayInterval :: "nat option"
  options :: carousel_options
  events :: "carousel_event list"
  gotoTweens :: "tween list"
  hiddenItems :: "elem set"
  itemPositions :: "real list"
  wrapperHeight :: real
  dragElementHeight :: real
  dragElementLeft :: real
  timerCount :: nat

definition dispatchEvent :: "carousel_event \<Rightarrow> carousel \<Rightarrow> carousel" where
  "dispatchEvent e c = c\<lparr>events := events c @ [e]\<rparr>"

subsection \<open>Autoplay\<close>

text \<open>\<open>setInterval\<close> returns a fresh positive handle; the callback of the interval is
  \<open>next()\<close>.\<close>

definition startAutoplay :: "carousel \<Rightarrow> carousel" where
  "startAutoplay c =
     (if isAutoplay (options c)
      then c\<lparr>autoplayInterval := Some (Suc (timerCount c)), timerCount := Suc (timerCount c)\<rparr>
      else c)"

definition stopAutoplay :: "carousel \<Rightarrow> carousel" where
  "stopAutoplay c =
     (case autoplayInterval c of
        Some h \<Rightarrow> (if h \<noteq> 0 then c\<lparr>autoplayInterval := None\<rparr> else c)
      | None \<Rightarrow> c)"

subsection \<open>The index getter\<close>

text \<open>The remainder is smaller in magnitude than the length of the array, which is below
  \<open>2 ^ 32\<close>, so the addition of the length is exact.\<close>

definition index :: "carousel \<Rightarrow> int js" where
  "index c =
     (let total' = int (length (carouselItems c)) in
      case js_rem_num (snapIndex c) total' of
        Inl e \<Rightarrow> Inl e
      | Inr r \<Rightarrow> js_rem_int (r + total') total')"

subsection \<open>Programmatic navigation\<close>

text \<open>
  \<open>goto\<close> stops the autoplay and hands a tween of the dragger's position to the
  animation library. The library calls \<open>onStart\<close> when the tween starts, \<open>onUpdate\<close> on
  every frame and \<open>onComplete\<close> at its end.
\<close>

definition goto :: "int js \<Rightarrow> real \<Rightarrow> real \<Rightarrow> carousel \<Rightarrow> carousel" where
  "goto i duration delay c =
     (let c1 = stopAutoplay c in
      c1\<lparr>gotoTweens := gotoTweens c1 @
            [\<lparr>tween_duration = duration, tween_delay = delay,
              tween_x = js_times (js_neg i) (itemWidth c1)\<rparr>]\<rparr>)"

text \<open>\<open>goto(index)\<close> with the default duration and delay.\<close>

definition goto_default :: "int js \<Rightarrow> carousel \<Rightarrow> carousel" where
  "goto_default i c = goto i (gotoAnimation_duration (options c)) 0 c"

definition goto_onStart :: "carousel \<Rightarrow> carousel" where
  "goto_onStart c = dispatchEvent CHANGE c"

definition goto_onComplete :: "carousel \<Rightarrow> carousel" where
  "goto_onComplete c = startAutoplay c"

text \<open>The row step \<open>Math.floor(this.viewWidth / this.itemWidth)\<close>.\<close>

definition rowStep :: "carousel \<Rightarrow> int js" where
  "rowStep c = Math_floor (js_div (viewWidth c) (itemWidth c))"

text \<open>
  \<open>previous\<close> and \<open>next\<close>. A non-finite row step (an item width of zero) makes the snap
  index non-finite; the tween is requested all the same.
\<close>

definition previous :: "bool \<Rightarrow> carousel \<Rightarrow> carousel" where
  "previous moveRow c =
     (let c1 = c\<lparr>snapIndex := js_sub (snapIndex c) (if moveRow then rowStep c else Inr 1)\<rparr>
      in goto_default (snapIndex c1) c1)"

definition "next" :: "bool \<Rightarrow> carousel \<Rightarrow> carousel" where
  "next moveRow c =
     (let c1 = c\<lparr>snapIndex := js_add (snapIndex c) (if moveRow then rowStep c else Inr 1)\<rparr>
      in goto_default (snapIndex c1) c1)"

text \<open>
  The two normalisation loops of \<open>getNearestRotationIndex\<close>. A loop that does not end
  has the value \<open>None\<close>. The first loop tests and updates \<open>curIndex\<close>; the second tests
  \<open>newIndex\<close> and updates \<open>updatedNewIndex\<close>. The current index is the snap index, a
  number that may be non-finite; the requested index is a finite integer.
\<close>

partial_function (option) loop_curIndex :: "int js \<Rightarrow> int \<Rightarrow> int js option" where
  "loop_curIndex curIndex total' =
     (if js_less curIndex (Inr 0) then loop_curIndex (js_add curIndex (Inr total')) total'
      else Some curIndex)"

partial_function (option) loop_newIndex :: "int \<Rightarrow> int js \<Rightarrow> int \<Rightarrow> int js option" where
  "loop_newIndex newIndex updatedNewIndex total' =
     (if newIndex < 0 then loop_newIndex newIndex (js_add updatedNewIndex (Inr total')) total'
      else Some updatedNewIndex)"

declare loop_curIndex.simps [code]
declare loop_newIndex.simps [code]

definition getNearestRotationIndex :: "int js \<Rightarrow> int \<Rightarrow> int \<Rightarrow> int js option" where
  "getNearestRotationIndex i newIndex total' =
     do {
       curIndex \<leftarrow> loop_curIndex i total';
       updatedNewIndex \<leftarrow> loop_newIndex newIndex (Inr newIndex) total';
       let diff = js_abs (js_sub curIndex updatedNewIndex);
       Some (if (case diff of Inr d \<Rightarrow> real_of_int d > real_of_int total' / 2
                 | Inl e \<Rightarrow> e = PosInfinity)
             then (if js_less updatedNewIndex curIndex then js_add i (js_sub (Inr total') diff)
                   else js_sub i (js_sub (Inr total') diff))
             else if js_less curIndex updatedNewIndex then js_add i diff
             else js_sub i diff)
     }"

definition activate :: "int \<Rightarrow> carousel \<Rightarrow> carousel option" where
  "activate i c =
     do {
       s \<leftarrow> getNearestRotationIndex (snapIndex c) i (int (length (carouselItems c)));
       let c1 = c\<lparr>snapIndex := s\<rparr>;
       Some (goto_default (snapIndex c1) c1)
     }"

subsection \<open>Measuring and layout\<close>

definition setItemDimensions :: "dom \<Rightarrow> carousel \<Rightarrow> carousel" where
  "setItemDimensions d c =
     (let c1 = c\<lparr>viewWidth := wrapper_offsetWidth d\<rparr> in
      case carouselItems c1 of
        [] \<Rightarrow> c1
      | e # es \<Rightarrow>
          c1\<lparr>itemWidth := offsetWidth d e,
             itemHeight := fold max (map (offsetHeight d) es) (offsetHeight d e)\<rparr>)"

definition setWrapperHeight :: "carousel \<Rightarrow> carousel" where
  "setWrapperHeight c = c\<lparr>wrapperHeight := itemHeight c, dragElementHeight := itemHeight c\<rparr>"

definition setItemPositions :: "carousel \<Rightarrow> carousel" where
  "setItemPositions c =
     c\<lparr>itemPositions :=
          map (\<lambda>i. itemWidth c * (real i + 1)) [0..<length (carouselItems c)],
       dragElementLeft := - itemWidth c\<rparr>"

text \<open>The looping animation moves every item by the width of the whole track; the
  state keeps that width.\<close>

definition createAnimation :: "carousel \<Rightarrow> carousel" where
  "createAnimation c =
     c\<lparr>animation := Some (itemWidth c * real (length (carouselItems c)))\<rparr>"

definition getBounds :: "carousel \<Rightarrow> bounds option" where
  "getBounds c =
     (if isInfinite (options c) then None
      else Some \<lparr>maxX = 0,
                 minX = - (itemWidth c * real (length (carouselItems c)) - viewWidth c)\<rparr>)"

definition createDraggable :: "carousel \<Rightarrow> carousel" where
  "createDraggable c =
     c\<lparr>dragger :=
          Some \<lparr>dragger_x = 0,
                overshootTolerance = (if isInfinite (options c) then 1 else 0),
                dragger_bounds = getBounds c\<rparr>\<rparr>"

definition updateSize :: "dom \<Rightarrow> carousel \<Rightarrow> carousel" where
  "updateSize d c =
     (let c1 = setItemPositions (setWrapperHeight (setItemDimensions d c)) in
      case dragger c1 of
        Some g \<Rightarrow> (let c2 = createAnimation c1 in goto (snapIndex c2) 0.1 0 c2)
      | None \<Rightarrow> c1)"

subsection \<open>The position modifier and the in-view items\<close>

definition addInViewItem :: "elem \<Rightarrow> real \<Rightarrow> carousel \<Rightarrow> carousel" where
  "addInViewItem target currentX c =
     (let itemIndex = indexOf (carouselItems c) target;
          inViewIndex = indexOf (inViewIndexes c) itemIndex;
          c1 = (if inViewIndex < 0
                then (let c0 = dispatchEvent (ITEM_IN_VIEW itemIndex) c
                      in c0\<lparr>inViewIndexes := inViewIndexes c0 @ [itemIndex]\<rparr>)
                else c);
          progress = lodash_clamp (js_div currentX (viewWidth c1 + itemWidth c1)) 0 1
      in dispatchEvent (ITEM_IN_VIEW_PROGRESS progress itemIndex) c1)"

definition removeInViewItem :: "elem \<Rightarrow> carousel \<Rightarrow> carousel" where
  "removeInViewItem target c =
     (let itemIndex = indexOf (carouselItems c) target;
          inViewIndex = indexOf (inViewIndexes c) itemIndex
      in if inViewIndex > -1
         then (let c1 = c\<lparr>inViewIndexes := splice1 (inViewIndexes c) (nat inViewIndex)\<rparr>
               in dispatchEvent (ITEM_OUT_VIEW itemIndex) c1)
         else c)"

text \<open>
  The modifier the animation library calls with the position \<open>x\<close> of the item
  \<open>target\<close>; it returns the wrapped position. A comparison with \<open>NaN\<close> is false.
\<close>

definition getAnimationModifier :: "real \<Rightarrow> elem \<Rightarrow> carousel \<Rightarrow> real js \<times> carousel" where
  "getAnimationModifier x target c =
     (let newX = js_rem x (itemWidth c * real (length (carouselItems c)));
          c1 = (if hideOverflowItems (options c)
                then (if (case newX of Inr v \<Rightarrow> v - itemWidth c > viewWidth c | Inl e \<Rightarrow> False)
                      then c\<lparr>hiddenItems := insert target (hiddenItems c)\<rparr>
                      else c\<lparr>hiddenItems := hiddenItems c - {target}\<rparr>)
                else c)
      in (newX,
          case newX of
            Inr v \<Rightarrow> (if v > 0 \<and> v < viewWidth c1 + itemWidth c1
                      then addInViewItem target v c1
                      else removeInViewItem target c1)
          | Inl e \<Rightarrow> removeInViewItem target c1))"

subsection \<open>Drag and snap\<close>

text \<open>
  The snap function: it stores the snap index and returns the position at which the
  drag comes to rest. With an item width of zero the stored snap index is an infinity or
  \<open>NaN\<close> and the returned position is \<open>NaN\<close>.
\<close>

definition getSnap :: "real \<Rightarrow> carousel \<Rightarrow> real js \<times> carousel" where
  "getSnap endValue c =
     (let c1 = c\<lparr>snapIndex := js_neg (Math_round (js_div endValue (itemWidth c)))\<rparr>
      in (js_times (js_neg (snapIndex c1)) (itemWidth c1), c1))"

definition onThrowComplete :: "carousel \<Rightarrow> carousel" where
  "onThrowComplete c =
     (let c1 = (if js_strict_neq (snapIndex c) (previousSnapIndex c)
                then dispatchEvent CHANGE c else c);
          c2 = c1\<lparr>previousSnapIndex := snapIndex c1\<rparr>
      in startAutoplay c2)"

subsection \<open>Construction\<close>

text \<open>The field initialisers of the class, with the options already merged over the
  defaults. The constructor also registers \<open>updateSize\<close> as the resize listener and
  defers a first progress update of the looping animation; both reach the state through
  \<open>updateSize\<close> and \<open>getAnimationModifier\<close> when the environment calls them.\<close>

definition initial :: "elem list \<Rightarrow> carousel_options \<Rightarrow> carousel" where
  "initial items opts =
     \<lparr>carouselItems = items, itemWidth = 0, itemHeight = 0, viewWidth = 0,
      animation = None, dragger = None, snapIndex = Inr 0, previousSnapIndex = Inr 0,
      inViewIndexes = [], autoplayInterval = None, options = opts, events = [],
      gotoTweens = [], hiddenItems = {}, itemPositions = [], wrapperHeight = 0,
      dragElementHeight = 0, dragElementLeft = 0, timerCount = 0\<rparr>"

definition constructor :: "dom \<Rightarrow> elem list \<Rightarrow> carousel_options \<Rightarrow> carousel" where
  "constructor d items opts =
     startAutoplay (createDraggable (createAnimation (updateSize d (initial items opts))))"

text \<open>\<open>next()\<close> called \<open>n\<close> times in succession.\<close>

fun next_times :: "nat \<Rightarrow> carousel \<Rightarrow> carousel" where
  "next_times 0 c = c"
| "next_times (Suc n) c = next_times n (next False c)"

subsection \<open>The states of a controller\<close>

text \<open>
  The constructed state, and the states that the public methods and the callbacks
  registered with the drag and animation libraries lead to.
\<close>

inductive reachable :: "carousel \<Rightarrow> bool" where
  constructed: "reachable (constructor d items opts)"
| resized: "reachable c \<Longrightarrow> reachable (updateSize d c)"
| went_next: "reachable c \<Longrightarrow> reachable (next moveRow c)"
| went_previous: "reachable c \<Longrightarrow> reachable (previous moveRow c)"
| activated: "reachable c \<Longrightarrow> activate i c = Some c' \<Longrightarrow> reachable c'"
| tween_started: "reachable c \<Longrightarrow> reachable (goto_onStart c)"
| tween_completed: "reachable c \<Longrightarrow> reachable (goto_onComplete c)"
| drag_started: "reachable c \<Longrightarrow> reachable (stopAutoplay c)"
| snapped: "reachable c \<Longrightarrow> reachable (snd (getSnap endValue c))"
| throw_completed: "reachable c \<Longrightarrow> reachable (onThrowComplete c)"
| modified: "reachable c \<Longrightarrow> reachable (snd (getAnimationModifier x target c))"

subsection \<open>The nearest rotation as specified\<close>

text \<open>
  The specification's wording of the nearest rotation, for comparison with
  \<open>getNearestRotationIndex\<close>: the current and the target index are both normalised into
  \<open>[0, total)\<close>, and the snap index moves by the shorter of the two ways round.
\<close>

definition nearestRotation_spec :: "int \<Rightarrow> int \<Rightarrow> int \<Rightarrow> int" where
  "nearestRotation_spec i newIndex total' =
     (let normalizedCurrent = i mod total';
          normalizedTarget = newIndex mod total';
          diff = \<bar>normalizedCurrent - normalizedTarget\<bar>
      in if real_of_int diff > real_of_int total' / 2
         then (if normalizedCurrent > normalizedTarget then i + (total' - diff)
               else i - (total' - diff))
         else if normalizedCurrent < normalizedTarget then i + diff
         else i - diff)"

subsection \<open>The scenario of the specification\<close>

text \<open>Five items of width 100 in a viewport of width 250.\<close>

definition dom5 :: dom where
  "dom5 = \<lparr>wrapper_offsetWidth = 250, offsetWidth = (\<lambda>e. 100), offsetHeight = (\<lambda>e. 60)\<rparr>"

definition carousel5 :: carousel where
  "carousel5 = constructor dom5 [0, 1, 2, 3, 4] default_options"

text \<open>The carousel as the component creates it, with bounds, and the measurements after
  the window has become smaller.\<close>

definition bounded5 :: carousel where
  "bounded5 = constructor dom5 [0, 1, 2, 3, 4] (default_options\<lparr>isInfinite := False\<rparr>)"

definition dom_small :: dom where
  "dom_small = \<lparr>wrapper_offsetWidth = 120, offsetWidth = (\<lambda>e. 40), offsetHeight = (\<lambda>e. 60)\<rparr>"

text \<open>The same carousel measured while its items have no width.\<close>

definition carousel0 :: carousel where
  "carousel0 = constructor (dom5\<lparr>offsetWidth := (\<lambda>e. 0)\<rparr>) [0, 1, 2, 3, 4] default_options"

section \<open>Properties\<close>

subsection \<open>The scenario\<close>

lemmas scenario_defs = carousel5_def constructor_def initial_def updateSize_def
  setItemDimensions_def setWrapperHeight_def setItemPositions_def createAnimation_def
  createDraggable_def getBounds_def startAutoplay_def default_options_def dom5_def Let_def

lemma carousel0_fields:
  "carouselItems carousel0 = [0, 1, 2, 3, 4]"
  "itemWidth carousel0 = 0"
  "viewWidth carousel0 = 250"
  "snapIndex carousel0 = Inr 0"
  by (simp_all add: carousel0_def scenario_defs)

lemma carousel5_fields:
  "carouselItems carousel5 = [0, 1, 2, 3, 4]"
  "itemWidth carousel5 = 100"
  "viewWidth carousel5 = 250"
  "snapIndex carousel5 = Inr 0"
  "previousSnapIndex carousel5 = Inr 0"
  "events carousel5 = []"
  "gotoTweens carousel5 = []"
  "inViewIndexes carousel5 = []"
  "autoplayInterval carousel5 = None"
  "options carousel5 = default_options"
  by (simp_all add: scenario_defs)

subsection \<open>Arithmetic on small integers is exact\<close>

lemma dbl_small: "\<bar>n\<bar> \<le> 2 ^ 53 \<Longrightarrow> dbl n = Inr n"
  by (simp add: dbl_def)

lemma js_add_small: "\<bar>x + y\<bar> \<le> 2 ^ 53 \<Longrightarrow> js_add (Inr x) (Inr y) = Inr (x + y)"
  by (simp add: js_add_def dbl_small)

lemma js_sub_small: "\<bar>x - y\<bar> \<le> 2 ^ 53 \<Longrightarrow> js_sub (Inr x) (Inr y) = Inr (x - y)"
  by (simp add: js_sub_def js_neg_def js_add_def dbl_small)

lemma js_add_bounds:
  "- 9007199254740992 \<le> x + y \<Longrightarrow> x + y \<le> 9007199254740992 \<Longrightarrow>
    js_add (Inr x) (Inr y) = Inr (x + y)"
  by (simp add: js_add_small abs_le_iff)

lemma js_sub_bounds:
  "- 9007199254740992 \<le> x - y \<Longrightarrow> x - y \<le> 9007199254740992 \<Longrightarrow>
    js_sub (Inr x) (Inr y) = Inr (x - y)"
  by (simp add: js_sub_small abs_le_iff)

lemma js_finite_simps:
  "js_less (Inr x) (Inr y) = (x < y)"
  "js_abs (Inr x) = Inr \<bar>x\<bar>"
  "js_neg (Inr x) = Inr (- x)"
  by (simp_all add: js_less_def js_abs_def js_neg_def)

text \<open>Counting stops at \<open>2 ^ 53\<close>.\<close>

lemma js_add_2_53: "js_add (Inr 9007199254740992) (Inr 1) = Inr 9007199254740992"
  by (simp add: js_add_def dbl_def bitlen.simps Let_def)

subsection \<open>The normalisation loops\<close>

lemma loop_newIndex_nonneg: "0 \<le> newIndex \<Longrightarrow> loop_newIndex newIndex u total' = Some u"
  by (simp add: loop_newIndex.simps)

lemma loop_newIndex_Some_nonneg:
  assumes "loop_newIndex newIndex u total' = Some y"
  shows "0 \<le> newIndex"
proof (rule loop_newIndex.raw_induct [where P = "\<lambda>n u t y. 0 \<le> n", OF _ assms])
  fix loop :: "int \<Rightarrow> int js \<Rightarrow> int \<Rightarrow> int js option" and n t :: int and v z :: "int js"
  assume IH: "\<And>n v t z. loop n v t = Some z \<Longrightarrow> 0 \<le> n"
    and step: "(if n < 0 then loop n (js_add v (Inr t)) t else Some v) = Some z"
  show "0 \<le> n"
  proof (cases "n < 0")
    case True
    with step have "loop n (js_add v (Inr t)) t = Some z" by simp
    then show ?thesis by (rule IH)
  next
    case False
    then show ?thesis by simp
  qed
qed

lemma loop_newIndex_neg: "newIndex < 0 \<Longrightarrow> loop_newIndex newIndex u total' = None"
  using loop_newIndex_Some_nonneg [of newIndex u total']
  by (cases "loop_newIndex newIndex u total'") auto

lemma loop_curIndex_stop: "\<not> js_less cur (Inr 0) \<Longrightarrow> loop_curIndex cur total' = Some cur"
  by (simp add: loop_curIndex.simps)

lemma loop_curIndex_nonneg: "0 \<le> i \<Longrightarrow> loop_curIndex (Inr i) total' = Some (Inr i)"
  by (simp add: loop_curIndex_stop js_finite_simps)

lemma loop_curIndex_neg:
  assumes "0 < total'" "total' \<le> 2 ^ 53"
  shows "i < 0 \<Longrightarrow> - (2 ^ 53) \<le> i \<Longrightarrow> loop_curIndex (Inr i) total' = Some (Inr (i mod total'))"
proof (induction "nat (- i)" arbitrary: i rule: less_induct)
  case less
  have step: "js_add (Inr i) (Inr total') = Inr (i + total')"
    using less.prems assms by (intro js_add_small) simp
  have unfold: "loop_curIndex (Inr i) total' = loop_curIndex (Inr (i + total')) total'"
    using less.prems by (subst loop_curIndex.simps) (simp add: js_finite_simps step)
  show ?case
  proof (cases "i + total' < 0")
    case True
    have "loop_curIndex (Inr (i + total')) total' = Some (Inr ((i + total') mod total'))"
      using less.hyps [of "i + total'"] True assms less.prems by simp
    then show ?thesis by (simp add: unfold)
  next
    case False
    then have "loop_curIndex (Inr (i + total')) total' = Some (Inr (i + total'))"
      by (simp add: loop_curIndex_nonneg)
    moreover have "(i + total') mod total' = i + total'"
      using False less.prems by (intro mod_pos_pos_trivial) simp_all
    then have "i mod total' = i + total'"
      by simp
    ultimately show ?thesis by (simp add: unfold)
  qed
qed

lemma loop_curIndex_eq:
  "0 < total' \<Longrightarrow> total' \<le> 2 ^ 53 \<Longrightarrow> - (2 ^ 53) \<le> i \<Longrightarrow>
    loop_curIndex (Inr i) total' = Some (Inr (if i < 0 then i mod total' else i))"
  by (simp add: loop_curIndex_neg loop_curIndex_nonneg)

text \<open>From minus infinity the first loop does not end: adding the item count leaves
  minus infinity.\<close>

lemma loop_curIndex_Some_not_NegInfinity:
  assumes "loop_curIndex cur total' = Some y"
  shows "cur \<noteq> Inl NegInfinity"
proof (rule loop_curIndex.raw_induct [where P = "\<lambda>cur t y. cur \<noteq> Inl NegInfinity", OF _ assms])
  fix loop :: "int js \<Rightarrow> int \<Rightarrow> int js option" and t :: int and v z :: "int js"
  assume IH: "\<And>v t z. loop v t = Some z \<Longrightarrow> v \<noteq> Inl NegInfinity"
    and step: "(if js_less v (Inr 0) then loop (js_add v (Inr t)) t else Some v) = Some z"
  show "v \<noteq> Inl NegInfinity"
  proof
    assume v: "v = Inl NegInfinity"
    with step have "loop (Inl NegInfinity) t = Some z"
      by (simp add: js_less_def js_add_def)
    then have "Inl NegInfinity \<noteq> (Inl NegInfinity :: int js)" by (rule IH)
    then show False by simp
  qed
qed

lemma loop_curIndex_NegInfinity: "loop_curIndex (Inl NegInfinity) total' = None"
  using loop_curIndex_Some_not_NegInfinity [of "Inl NegInfinity" total']
  by (cases "loop_curIndex (Inl NegInfinity) total'") auto

lemma getNearestRotationIndex_None_iff:
  assumes "0 < total'" "total' \<le> 2 ^ 53" "- (2 ^ 53) \<le> i"
  shows "(getNearestRotationIndex (Inr i) newIndex total' = None) = (newIndex < 0)"
  using assms
  by (cases "newIndex < 0")
     (simp_all add: getNearestRotationIndex_def loop_curIndex_eq loop_newIndex_neg
        loop_newIndex_nonneg Let_def)

lemma getNearestRotationIndex_NegInfinity:
  "getNearestRotationIndex (Inl NegInfinity) newIndex total' = None"
  by (simp add: getNearestRotationIndex_def loop_curIndex_NegInfinity)

lemma getNearestRotationIndex_example:
  "getNearestRotationIndex (Inr 1) 8 10 = Some (Inr (- 2))"
  by (simp add: getNearestRotationIndex_def loop_curIndex.simps loop_newIndex.simps
      js_finite_simps js_sub_small js_add_small)

lemma half_turn_up:
  fixes a b i t :: int
  assumes "t < 2 * \<bar>a - b\<bar>" "b < a" "a < t" "0 \<le> b"
  shows "2 * \<bar>i - a + b + t - i\<bar> \<le> t"
proof -
  have e: "i - a + b + t - i = t - (a - b)" by simp
  have p: "0 \<le> t - (a - b)" using assms(3,4) by linarith
  have q: "\<bar>a - b\<bar> = a - b" using assms(2) by simp
  have "2 * (t - (a - b)) \<le> t" using assms(1) unfolding q by (simp add: algebra_simps)
  then show ?thesis unfolding e using p by simp
qed

lemma half_turn_down:
  fixes a b i t :: int
  assumes "t < 2 * \<bar>a - b\<bar>" "\<not> b < a" "0 \<le> a" "b < t"
  shows "2 * \<bar>i - a + b - t - i\<bar> \<le> t"
proof -
  have e: "i - a + b - t - i = - (t - (b - a))" by simp
  have p: "0 \<le> t - (b - a)" using assms(3,4) by linarith
  have q: "\<bar>a - b\<bar> = b - a" using assms(2) by simp
  have "2 * (t - (b - a)) \<le> t" using assms(1) unfolding q by (simp add: algebra_simps)
  then show ?thesis unfolding e using p by simp
qed

text \<open>The specified rotation reaches the target by at most half a turn.\<close>

lemma nearestRotation_spec_minimal:
  assumes "0 < total'"
  shows "nearestRotation_spec i newIndex total' mod total' = newIndex mod total'
    \<and> 2 * \<bar>nearestRotation_spec i newIndex total' - i\<bar> \<le> total'"
proof -
  define a where "a = i mod total'"
  define b where "b = newIndex mod total'"
  have half: "(real_of_int d > real_of_int total' / 2) = (2 * d > total')" for d
    by (simp add: field_simps) linarith
  have ab: "0 \<le> a" "a < total'" "0 \<le> b" "b < total'"
    using assms by (simp_all add: a_def b_def)
  have ia: "(i - a) mod total' = 0"
    by (simp add: a_def minus_mod_eq_mult_div)
  have "(i - a + b) mod total' = ((i - a) mod total' + b) mod total'"
    by (simp add: mod_add_left_eq)
  also have "\<dots> = newIndex mod total'"
    by (simp add: ia b_def)
  finally have r: "(i - a + b) mod total' = newIndex mod total'" .
  have r1: "(i - a + b + total') mod total' = newIndex mod total'"
    using r by simp
  have r2: "(i - a + b - total') mod total' = newIndex mod total'"
    using r by simp
  have spec: "nearestRotation_spec i newIndex total' =
      (if 2 * \<bar>a - b\<bar> > total'
       then (if a > b then i - a + b + total' else i - a + b - total')
       else i - a + b)"
    unfolding nearestRotation_spec_def Let_def half a_def [symmetric] b_def [symmetric]
    by (cases "a < b") simp_all
  have m: "nearestRotation_spec i newIndex total' mod total' = newIndex mod total'"
    unfolding spec using r r1 r2 by simp
  have d: "2 * \<bar>nearestRotation_spec i newIndex total' - i\<bar> \<le> total'"
  proof (cases "2 * \<bar>a - b\<bar> > total'")
    case False
    have "\<bar>i - a + b - i\<bar> = \<bar>a - b\<bar>" by simp
    with False show ?thesis by (simp add: spec)
  next
    case big: True
    show ?thesis
    proof (cases "a > b")
      case True
      have "2 * \<bar>i - a + b + total' - i\<bar> \<le> total'"
        using big True ab by (intro half_turn_up)
      with big True show ?thesis by (simp add: spec)
    next
      case False
      have "2 * \<bar>i - a + b - total' - i\<bar> \<le> total'"
        using big False ab by (intro half_turn_down)
      with big False show ?thesis by (simp add: spec)
    qed
  qed
  from m d show ?thesis by (rule conjI)
qed

text \<open>On normalised arguments the function agrees with the specified nearest rotation.\<close>

lemma getNearestRotationIndex_refines_spec:
  assumes "0 < total'" "total' \<le> 2 ^ 52" "- (2 ^ 52) \<le> i" "i < total'"
    and "0 \<le> newIndex" "newIndex < total'"
  shows "getNearestRotationIndex (Inr i) newIndex total' =
    Some (Inr (nearestRotation_spec i newIndex total'))"
proof -
  define a where "a = i mod total'"
  define D where "D = \<bar>a - newIndex\<bar>"
  have a: "0 \<le> a" "a < total'"
    using assms(1) by (simp_all add: a_def)
  have t: "total' \<le> 4503599627370496" and i: "- 4503599627370496 \<le> i"
    using assms(2,3) by simp_all
  have cur: "loop_curIndex (Inr i) total' = Some (Inr a)"
    using assms by (simp add: loop_curIndex_eq a_def)
  have new: "newIndex mod total' = newIndex"
    using assms by simp
  have D: "0 \<le> D" "D < total'"
    using a assms(5,6) unfolding D_def by linarith+
  have d: "js_abs (js_sub (Inr a) (Inr newIndex)) = Inr D"
    using a assms(5,6) t unfolding D_def by (simp add: js_sub_bounds js_finite_simps)
  have td: "js_sub (Inr total') (Inr D) = Inr (total' - D)"
    using D t by (intro js_sub_bounds) linarith+
  have r1: "js_add (Inr i) (Inr (total' - D)) = Inr (i + (total' - D))"
    using D t i assms(4) by (intro js_add_bounds) linarith+
  have r2: "js_sub (Inr i) (Inr (total' - D)) = Inr (i - (total' - D))"
    using D t i assms(4) by (intro js_sub_bounds) linarith+
  have r3: "js_add (Inr i) (Inr D) = Inr (i + D)"
    using D t i assms(4) by (intro js_add_bounds) linarith+
  have r4: "js_sub (Inr i) (Inr D) = Inr (i - D)"
    using D t i assms(4) by (intro js_sub_bounds) linarith+
  have code: "getNearestRotationIndex (Inr i) newIndex total' =
      Some (if real_of_int D > real_of_int total' / 2
            then (if newIndex < a then Inr (i + (total' - D)) else Inr (i - (total' - D)))
            else if a < newIndex then Inr (i + D) else Inr (i - D))"
    using assms(5)
    by (simp add: getNearestRotationIndex_def cur loop_newIndex_nonneg d td r1 r2 r3 r4
        js_finite_simps Let_def cong: if_cong split del: if_split)
  have spec: "nearestRotation_spec i newIndex total' =
      (if real_of_int D > real_of_int total' / 2
       then (if newIndex < a then i + (total' - D) else i - (total' - D))
       else if a < newIndex then i + D else i - D)"
    unfolding nearestRotation_spec_def Let_def new a_def [symmetric] D_def [symmetric]
    by simp
  show ?thesis
    unfolding code spec by simp
qed

subsection \<open>Termination of \<open>activate\<close>\<close>

lemma activate_None_iff:
  "activate t c = None \<longleftrightarrow>
     getNearestRotationIndex (snapIndex c) t (int (length (carouselItems c))) = None"
  by (simp add: activate_def Let_def bind_eq_None_conv)

lemma getSnap_fields:
  "carouselItems (snd (getSnap e c)) = carouselItems c"
  "snapIndex (snd (getSnap e c)) = js_neg (Math_round (js_div e (itemWidth c)))"
  "inViewIndexes (snd (getSnap e c)) = inViewIndexes c"
  by (simp_all add: getSnap_def Let_def)

text \<open>
  With an item width of zero the snap function stores minus infinity as the snap index
  (and so does \<open>previous(true)\<close>). From that state \<open>activate(0)\<close> does not return,
  although the carousel has five items and the target is not negative.
\<close>

theorem activate_terminates_iff_counterexample:
  "carouselItems (snd (getSnap 50 carousel0)) \<noteq> []
    \<and> snapIndex (snd (getSnap 50 carousel0)) = Inl NegInfinity
    \<and> (0::int) \<le> 0
    \<and> activate 0 (snd (getSnap 50 carousel0)) = None"
  by (simp add: activate_None_iff getSnap_fields carousel0_fields js_div_def Math_round_def
      js_neg_def negate_def getNearestRotationIndex_NegInfinity)

text \<open>
  C10, amended: for a carousel with at least one item whose snap index is a finite
  integer not below \<open>- 2 ^ 53\<close>, \<open>getNearestRotationIndex\<close>, and hence \<open>activate\<close>,
  returns if and only if the requested target index is not negative. The second loop
  tests \<open>newIndex\<close> and adds to \<open>updatedNewIndex\<close>, so for a negative target its condition
  never changes and the call does not return.
\<close>

theorem activate_terminates_iff:
  assumes "carouselItems c \<noteq> []" "length (carouselItems c) < 2 ^ 32"
    and "snapIndex c = Inr s" "- (2 ^ 53) \<le> s"
  shows "(getNearestRotationIndex (snapIndex c) t (int (length (carouselItems c))) \<noteq> None)
      = (0 \<le> t)
    \<and> (activate t c \<noteq> None) = (0 \<le> t)"
proof -
  have "0 < int (length (carouselItems c))"
    using assms(1) by simp
  moreover have "int (length (carouselItems c)) < 2 ^ 32"
    using assms(2) by (metis of_nat_less_iff of_nat_numeral of_nat_power)
  then have "int (length (carouselItems c)) \<le> 2 ^ 53"
    by simp
  ultimately have "(getNearestRotationIndex (Inr s) t (int (length (carouselItems c))) = None)
      = (t < 0)"
    using assms(4) by (intro getNearestRotationIndex_None_iff)
  then show ?thesis
    by (auto simp add: activate_None_iff assms(3))
qed

theorem activate_terminates_iff_witness:
  "carouselItems carousel5 \<noteq> [] \<and> length (carouselItems carousel5) < 2 ^ 32
    \<and> snapIndex carousel5 = Inr 0 \<and> - (2 ^ 53) \<le> (0::int)
    \<and> activate (- 1) carousel5 = None \<and> activate 3 carousel5 \<noteq> None"
  using activate_terminates_iff [of carousel5 0 "- 1"] activate_terminates_iff [of carousel5 0 3]
  by (simp add: carousel5_fields)

subsection \<open>The logical index\<close>

lemma js_rem_int_pos:
  assumes "0 < n"
  shows "\<exists>r. js_rem_int a n = Inr r \<and> - n < r \<and> r < n \<and> r mod n = a mod n"
proof (cases "0 \<le> a")
  case True
  then have "sgn a * (\<bar>a\<bar> mod \<bar>n\<bar>) = a mod n"
    using assms by (cases "a = 0") simp_all
  moreover have "- n < a mod n"
    using assms pos_mod_sign [of n a] by linarith
  moreover have "a mod n < n"
    using assms by simp
  ultimately show ?thesis using assms by (simp add: js_rem_int_def)
next
  case False
  then have r: "sgn a * (\<bar>a\<bar> mod \<bar>n\<bar>) = - ((- a) mod n)"
    using assms by simp
  have "(- ((- a) mod n)) mod n = a mod n"
    by (simp add: mod_minus_eq)
  moreover have "- ((- a) mod n) < n"
    using assms pos_mod_sign [of n "- a"] by linarith
  moreover have "- n < - ((- a) mod n)"
    using assms by simp
  ultimately show ?thesis using assms r by (simp add: js_rem_int_def)
qed

lemma js_rem_int_normalised:
  assumes "0 < n" "- n < r" "r < n"
  shows "js_rem_int (r + n) n = Inr (r mod n)"
proof -
  have "0 < r + n" using assms by simp
  then have "sgn (r + n) * (\<bar>r + n\<bar> mod \<bar>n\<bar>) = (r + n) mod n"
    using assms by simp
  then show ?thesis using assms by (simp add: js_rem_int_def)
qed

lemma index_eq_mod:
  assumes "carouselItems c \<noteq> []" "snapIndex c = Inr s"
  shows "index c = Inr (s mod int (length (carouselItems c)))"
proof -
  let ?n = "int (length (carouselItems c))"
  have n: "0 < ?n" using assms by simp
  obtain r where r: "js_rem_int s ?n = Inr r" "- ?n < r" "r < ?n" "r mod ?n = s mod ?n"
    using js_rem_int_pos [OF n, of s] by blast
  show ?thesis
    using r js_rem_int_normalised [OF n r(2,3)]
    by (simp add: index_def js_rem_num_def assms(2) Let_def)
qed

text \<open>
  C2: for a carousel with at least one item and any integer snap index, negative ones
  included, the getter \<open>index\<close> is \<open>((snapIndex % itemCount) + itemCount) % itemCount\<close>,
  it is the snap index modulo the item count, and it lies in \<open>[0, itemCount)\<close>. With
  five items and the snap index \<open>-1\<close> the index is 4.
\<close>

theorem index_in_range:
  assumes "carouselItems c \<noteq> []" "snapIndex c = Inr s"
  shows "(\<exists>r. js_rem_num (snapIndex c) (int (length (carouselItems c))) = Inr r
          \<and> js_rem_int s (int (length (carouselItems c))) = Inr r
          \<and> index c = js_rem_int (r + int (length (carouselItems c))) (int (length (carouselItems c))))
    \<and> (\<exists>k. index c = Inr k \<and> 0 \<le> k \<and> k < int (length (carouselItems c))
          \<and> k = s mod int (length (carouselItems c)))"
proof -
  let ?n = "int (length (carouselItems c))"
  have n: "0 < ?n" using assms by simp
  obtain r where r: "js_rem_int s ?n = Inr r"
    using js_rem_int_pos [OF n, of s] by blast
  then have "index c = js_rem_int (r + ?n) ?n"
    by (simp add: index_def js_rem_num_def assms(2) Let_def)
  moreover have "index c = Inr (s mod ?n)"
    using assms by (rule index_eq_mod)
  ultimately show ?thesis using r n by (simp add: js_rem_num_def assms(2))
qed

theorem index_in_range_witness:
  "carouselItems (carousel5\<lparr>snapIndex := Inr (- 1)\<rparr>) \<noteq> []
    \<and> snapIndex (carousel5\<lparr>snapIndex := Inr (- 1)\<rparr>) = Inr (- 1)
    \<and> int (length (carouselItems (carousel5\<lparr>snapIndex := Inr (- 1)\<rparr>))) = 5
    \<and> index (carousel5\<lparr>snapIndex := Inr (- 1)\<rparr>) = Inr 4"
  using index_in_range [of "carousel5\<lparr>snapIndex := Inr (- 1)\<rparr>" "- 1"]
  by (simp add: carousel5_fields)

subsection \<open>A full turn of \<open>next\<close>\<close>

lemma goto_fields:
  "snapIndex (goto i duration delay c) = snapIndex c"
  "previousSnapIndex (goto i duration delay c) = previousSnapIndex c"
  "carouselItems (goto i duration delay c) = carouselItems c"
  "itemWidth (goto i duration delay c) = itemWidth c"
  "viewWidth (goto i duration delay c) = viewWidth c"
  "events (goto i duration delay c) = events c"
  "dragger (goto i duration delay c) = dragger c"
  "gotoTweens (goto i duration delay c) = gotoTweens c @
     [\<lparr>tween_duration = duration, tween_delay = delay,
       tween_x = js_times (js_neg i) (itemWidth c)\<rparr>]"
  by (simp_all add: goto_def stopAutoplay_def Let_def split: option.split)

lemma next_False:
  "next False c = goto_default (js_add (snapIndex c) (Inr 1))
     (c\<lparr>snapIndex := js_add (snapIndex c) (Inr 1)\<rparr>)"
  by (simp add: next_def Let_def)

lemma next_False_fields:
  "snapIndex (next False c) = js_add (snapIndex c) (Inr 1)"
  "carouselItems (next False c) = carouselItems c"
  by (simp_all add: next_False goto_default_def goto_fields)

lemma next_times_fields:
  "carouselItems (next_times n c) = carouselItems c"
  by (induction n arbitrary: c) (simp_all add: next_False_fields)

lemma next_times_snapIndex:
  "snapIndex c = Inr s \<Longrightarrow> - 9007199254740992 \<le> s \<Longrightarrow> s + int n \<le> 9007199254740992 \<Longrightarrow>
     snapIndex (next_times n c) = Inr (s + int n)"
proof (induction n arbitrary: c s)
  case 0
  then show ?case by simp
next
  case (Suc n)
  have "snapIndex (next False c) = Inr (s + 1)"
    using Suc.prems by (simp add: next_False_fields js_add_bounds)
  then have "snapIndex (next_times n (next False c)) = Inr (s + 1 + int n)"
    using Suc.prems by (intro Suc.IH) simp_all
  then show ?case by (simp add: add.assoc)
qed

text \<open>
  From the snap index \<open>2 ^ 53 - 1\<close> (logical index 1 of five items) five calls of
  \<open>next()\<close> end at \<open>2 ^ 53\<close>, where adding 1 changes nothing: the logical index is 2.
\<close>

theorem next_itemCount_times_index_counterexample:
  "carouselItems (carousel5\<lparr>snapIndex := Inr 9007199254740991\<rparr>) \<noteq> []
    \<and> length (carouselItems (carousel5\<lparr>snapIndex := Inr 9007199254740991\<rparr>)) = 5
    \<and> index (carousel5\<lparr>snapIndex := Inr 9007199254740991\<rparr>) = Inr 1
    \<and> snapIndex (next_times 5 (carousel5\<lparr>snapIndex := Inr 9007199254740991\<rparr>))
        = Inr 9007199254740992
    \<and> index (next_times 5 (carousel5\<lparr>snapIndex := Inr 9007199254740991\<rparr>)) = Inr 2"
proof -
  let ?c = "carousel5\<lparr>snapIndex := Inr 9007199254740991\<rparr>"
  have s: "snapIndex (next_times 5 ?c) = Inr 9007199254740992"
    by (simp add: eval_nat_numeral next_False_fields js_add_bounds js_add_2_53)
  have i: "carouselItems (next_times 5 ?c) = [0, 1, 2, 3, 4]"
    by (simp add: next_times_fields carousel5_fields)
  have "index (next_times 5 ?c) = Inr 2"
    using index_eq_mod [of "next_times 5 ?c", OF _ s] by (simp add: i)
  moreover have "index ?c = Inr 1"
    using index_eq_mod [of ?c 9007199254740991] by (simp add: carousel5_fields)
  ultimately show ?thesis using s by (simp add: carousel5_fields)
qed

text \<open>
  C5, amended: for a carousel with at least one item and a finite snap index \<open>s\<close> with
  \<open>- 2 ^ 53 \<le> s\<close> and \<open>s + itemCount \<le> 2 ^ 53\<close>, after \<open>itemCount\<close> calls of \<open>next()\<close> in
  succession the snap index is \<open>s + itemCount\<close> and the logical index is what it was at
  the start.
\<close>

theorem next_itemCount_times_index:
  assumes "carouselItems c \<noteq> []" "snapIndex c = Inr s"
    and "- (2 ^ 53) \<le> s" "s + int (length (carouselItems c)) \<le> 2 ^ 53"
  shows "index (next_times (length (carouselItems c)) c) = index c
    \<and> snapIndex (next_times (length (carouselItems c)) c)
        = Inr (s + int (length (carouselItems c)))"
proof -
  let ?n = "length (carouselItems c)"
  have s': "snapIndex (next_times ?n c) = Inr (s + int ?n)"
    using assms(2-4) by (intro next_times_snapIndex) simp_all
  have "index (next_times ?n c) = Inr ((s + int ?n) mod int ?n)"
    using index_eq_mod [of "next_times ?n c", OF _ s'] assms(1)
    by (simp add: next_times_fields)
  also have "\<dots> = index c"
    using assms by (simp add: index_eq_mod)
  finally show ?thesis using s' by simp
qed

theorem next_itemCount_times_index_witness:
  "carouselItems (carousel5\<lparr>snapIndex := Inr 3\<rparr>) \<noteq> []
    \<and> snapIndex (carousel5\<lparr>snapIndex := Inr 3\<rparr>) = Inr 3
    \<and> - (2 ^ 53) \<le> (3::int) \<and> (3::int) + 5 \<le> 2 ^ 53
    \<and> snapIndex (next_times 5 (carousel5\<lparr>snapIndex := Inr 3\<rparr>)) = Inr 8
    \<and> index (next_times 5 (carousel5\<lparr>snapIndex := Inr 3\<rparr>)) = Inr 3
    \<and> index (carousel5\<lparr>snapIndex := Inr 3\<rparr>) = Inr 3"
proof -
  let ?c = "carousel5\<lparr>snapIndex := Inr 3\<rparr>"
  have l: "length (carouselItems ?c) = 5"
    by (simp add: carousel5_fields)
  have h: "carouselItems ?c \<noteq> []" "snapIndex ?c = Inr 3" "- (2 ^ 53) \<le> (3::int)"
    "3 + int (length (carouselItems ?c)) \<le> 2 ^ 53"
    by (simp_all add: carousel5_fields)
  have x: "index ?c = Inr 3"
    using index_eq_mod [OF h(1,2)] by (simp add: carousel5_fields)
  have "index (next_times 5 ?c) = index ?c \<and> snapIndex (next_times 5 ?c) = Inr (3 + int 5)"
    using next_itemCount_times_index [OF h] unfolding l .
  with h x show ?thesis
    by simp
qed

subsection \<open>The rotation chosen by \<open>activate\<close>\<close>

lemma activate_snapIndex:
  "map_option snapIndex (activate t c) =
     getNearestRotationIndex (snapIndex c) t (int (length (carouselItems c)))"
  by (cases "getNearestRotationIndex (snapIndex c) t (int (length (carouselItems c)))")
     (simp_all add: activate_def goto_default_def goto_fields)

text \<open>The snap index \<open>2 ^ 53 - 1\<close> is reached from the constructed carousel by one call
  of \<open>activate\<close>.\<close>

lemma activate_reaches_2_53:
  "map_option snapIndex (activate 9007199254740996 carousel5) = Some (Inr 9007199254740991)"
  by (simp add: activate_snapIndex carousel5_fields getNearestRotationIndex_def
      loop_curIndex.simps loop_newIndex.simps js_finite_simps js_sub_def js_add_def js_abs_def
      js_less_def dbl_def bitlen.simps Let_def)

text \<open>
  C1: \<open>activate\<close> is specified to move the snap index by the rotation with the fewest
  steps, after normalising the current and the target index into \<open>[0, itemCount)\<close>. The
  first loop only adds to a negative current index, so a snap index of \<open>itemCount\<close> or
  more is not normalised. With five items, after nine calls of \<open>next()\<close> the snap index
  is 9 (item 4); \<open>activate(0)\<close> then moves 4 steps backwards to the snap index 5, where
  the specified rotation is 1 step forwards to 10.
\<close>

theorem activate_long_way_round:
  "snapIndex (next_times 9 carousel5) = Inr 9
    \<and> index (next_times 9 carousel5) = Inr 4
    \<and> map_option snapIndex (activate 0 (next_times 9 carousel5)) = Some (Inr 5)
    \<and> getNearestRotationIndex (Inr 9) 0 5 = Some (Inr 5)
    \<and> nearestRotation_spec 9 0 5 = 10"
proof -
  have g: "getNearestRotationIndex (Inr 9) 0 5 = Some (Inr 5)"
    by (simp add: getNearestRotationIndex_def loop_curIndex.simps loop_newIndex.simps
        js_finite_simps js_sub_small js_add_small)
  have s: "snapIndex (next_times 9 carousel5) = Inr 9"
    using next_times_snapIndex [of carousel5 0 9] by (simp add: carousel5_fields)
  have i: "carouselItems (next_times 9 carousel5) = [0, 1, 2, 3, 4]"
    by (simp add: next_times_fields carousel5_fields)
  have "index (next_times 9 carousel5) = Inr 4"
    using index_eq_mod [of "next_times 9 carousel5", OF _ s] by (simp add: i)
  moreover have "map_option snapIndex (activate 0 (next_times 9 carousel5)) = Some (Inr 5)"
    by (simp add: activate_snapIndex s i g)
  moreover have "nearestRotation_spec 9 0 5 = 10"
    by (simp add: nearestRotation_spec_def)
  ultimately show ?thesis using s g by simp
qed

subsection \<open>Change events\<close>

lemma goto_onStart_events: "events (goto_onStart c) = events c @ [CHANGE]"
  by (simp add: goto_onStart_def dispatchEvent_def)

text \<open>On throw completion \<open>CHANGE\<close> is dispatched if and only if the snap index differs
  from the previous one, which is then updated.\<close>

lemma onThrowComplete_events:
  "events (onThrowComplete c) =
     events c @ (if js_strict_neq (snapIndex c) (previousSnapIndex c) then [CHANGE] else [])"
  "previousSnapIndex (onThrowComplete c) = snapIndex c"
  "snapIndex (onThrowComplete c) = snapIndex c"
  by (simp_all add: onThrowComplete_def startAutoplay_def dispatchEvent_def Let_def)

lemma js_strict_neq_finite: "js_strict_neq (Inr x) (Inr y) = (x \<noteq> y)"
  by (simp add: js_strict_neq_def)

text \<open>From a snap index below the item count, \<open>activate\<close> with the current index
  keeps the snap index, and the start of its tween dispatches \<open>CHANGE\<close>.\<close>

lemma activate_current_index:
  assumes "carouselItems c \<noteq> []" "int (length (carouselItems c)) \<le> 2 ^ 52"
    and "snapIndex c = Inr s" "- (2 ^ 52) \<le> s" "s < int (length (carouselItems c))"
    and "index c = Inr t"
  shows "\<exists>c'. activate t c = Some c' \<and> snapIndex c' = snapIndex c
    \<and> events (goto_onStart c') = events c @ [CHANGE]"
proof -
  let ?n = "int (length (carouselItems c))"
  have n: "0 < ?n" using assms(1) by simp
  have t: "t = s mod ?n"
    using assms(1,3,6) by (simp add: index_eq_mod)
  then have t0: "0 \<le> t" "t < ?n" using n by simp_all
  have "nearestRotation_spec s t ?n = s"
    using n by (simp add: nearestRotation_spec_def t)
  then have "getNearestRotationIndex (Inr s) t ?n = Some (Inr s)"
    using getNearestRotationIndex_refines_spec [OF n assms(2,4,5) t0] by simp
  then have "activate t c = Some (goto_default (snapIndex c) (c\<lparr>snapIndex := snapIndex c\<rparr>))"
    by (simp add: activate_def assms(3))
  then show ?thesis
    by (simp add: goto_default_def goto_fields goto_onStart_events)
qed

text \<open>
  C3: \<open>CHANGE\<close> is specified to be dispatched once per navigation in which the snap
  index changes, and not when \<open>activate\<close> is called with the current index. The tween
  that \<open>goto\<close> creates dispatches \<open>CHANGE\<close> from its \<open>onStart\<close> callback without
  comparing the snap index with the previous one, as \<open>onThrowComplete\<close> does. For the
  carousel of five items at index 0, \<open>activate(0)\<close> leaves the snap index at 0, creates
  one tween, and the start of that tween dispatches \<open>CHANGE\<close>.
\<close>

theorem activate_current_index_dispatches_CHANGE:
  "index carousel5 = Inr 0
    \<and> map_option snapIndex (activate 0 carousel5) = Some (snapIndex carousel5)
    \<and> map_option (\<lambda>c. length (gotoTweens c)) (activate 0 carousel5) = Some 1
    \<and> map_option (\<lambda>c. events (goto_onStart c)) (activate 0 carousel5) = Some [CHANGE]"
  by (simp add: activate_def carousel5_fields getNearestRotationIndex_def loop_curIndex.simps
      loop_newIndex.simps js_finite_simps js_sub_small js_add_small goto_default_def
      goto_fields goto_onStart_events index_eq_mod)

subsection \<open>Snap\<close>

lemma Math_round_js_div:
  "w \<noteq> 0 \<Longrightarrow> Math_round (js_div e w) = Inr (round (e / w))"
  by (simp add: Math_round_def js_div_def round_def)

lemma getSnap_eq:
  "itemWidth c \<noteq> 0 \<Longrightarrow>
    getSnap endValue c =
      (Inr (of_int (round (endValue / itemWidth c) * - 1) * - 1 * itemWidth c),
       c\<lparr>snapIndex := Inr (round (endValue / itemWidth c) * - 1)\<rparr>)"
  by (simp add: getSnap_def Math_round_js_div js_neg_def js_times_def Let_def)



text \<open>The rest position is the item boundary nearest to the thrown end value.\<close>

lemma getSnap_nearest:
  assumes "itemWidth c > 0" "fst (getSnap endValue c) = Inr rest"
  shows "\<bar>rest - endValue\<bar> \<le> itemWidth c / 2"
proof -
  let ?w = "itemWidth c"
  let ?q = "endValue / ?w"
  have rest: "rest = of_int (round ?q) * ?w"
    using assms by (simp add: getSnap_eq)
  have e: "of_int (round ?q) * ?w - endValue = (of_int (round ?q) - ?q) * ?w"
    using assms(1) by (simp add: left_diff_distrib)
  have "\<bar>of_int (round ?q) - ?q\<bar> \<le> 1 / 2"
    by (rule of_int_round_abs_le)
  then have "\<bar>of_int (round ?q) - ?q\<bar> * ?w \<le> 1 / 2 * ?w"
    using assms(1) by (intro mult_right_mono) simp_all
  moreover have "\<bar>of_int (round ?q) - ?q\<bar> * ?w = \<bar>of_int (round ?q) * ?w - endValue\<bar>"
    unfolding e using assms(1) by (simp add: abs_mult)
  ultimately show ?thesis by (simp add: rest)
qed

text \<open>With an item width of zero the snap index is not finite and the position is
  \<open>NaN\<close>.\<close>

lemma getSnap_zero_width:
  "getSnap 50 carousel0 = (Inl NaN, carousel0\<lparr>snapIndex := Inl NegInfinity\<rparr>)"
  by (simp add: getSnap_def carousel0_fields js_div_def Math_round_def js_neg_def negate_def
      js_times_def Let_def)

subsection \<open>Resize\<close>

lemma layout_fields:
  "snapIndex (setItemPositions (setWrapperHeight (setItemDimensions d c))) = snapIndex c"
  "carouselItems (setItemPositions (setWrapperHeight (setItemDimensions d c))) = carouselItems c"
  "dragger (setItemPositions (setWrapperHeight (setItemDimensions d c))) = dragger c"
  "options (setItemPositions (setWrapperHeight (setItemDimensions d c))) = options c"
  "gotoTweens (setItemPositions (setWrapperHeight (setItemDimensions d c))) = gotoTweens c"
  "events (setItemPositions (setWrapperHeight (setItemDimensions d c))) = events c"
  "viewWidth (setItemPositions (setWrapperHeight (setItemDimensions d c))) = wrapper_offsetWidth d"
  "itemWidth (setItemPositions (setWrapperHeight (setItemDimensions d c))) =
     (case carouselItems c of [] \<Rightarrow> itemWidth c | e # es \<Rightarrow> offsetWidth d e)"
  by (simp_all add: setItemPositions_def setWrapperHeight_def setItemDimensions_def Let_def
      split: list.split)

lemma updateSize_fields:
  "itemWidth (updateSize d c) =
     (case carouselItems c of [] \<Rightarrow> itemWidth c | e # es \<Rightarrow> offsetWidth d e)"
  "viewWidth (updateSize d c) = wrapper_offsetWidth d"
  "carouselItems (updateSize d c) = carouselItems c"
  "snapIndex (updateSize d c) = snapIndex c"
  "options (updateSize d c) = options c"
  by (simp_all add: updateSize_def Let_def setItemPositions_def setWrapperHeight_def
      setItemDimensions_def goto_def stopAutoplay_def createAnimation_def
      split: option.split list.split)

text \<open>The draggable, with the bounds computed when it was created, is left as it is.\<close>

lemma updateSize_keeps_dragger: "dragger (updateSize d c) = dragger c"
  by (simp add: updateSize_def Let_def layout_fields goto_fields createAnimation_def
      split: option.split)

lemma updateSize_itemPositions:
  "itemPositions (updateSize d c) =
     map (\<lambda>i. itemWidth (updateSize d c) * (real i + 1)) [0..<length (carouselItems c)]"
  by (simp add: updateSize_def Let_def setItemPositions_def setWrapperHeight_def
      setItemDimensions_def goto_def stopAutoplay_def createAnimation_def
      split: option.split list.split)

text \<open>
  C9: \<open>updateSize\<close> leaves the snap index, and so the logical index, unchanged. When
  the drag handler exists it builds the looping animation again for the new item width
  and requests a tween of 0.1 seconds, without delay, to the position of the current
  snap index; without a drag handler it requests no tween.
\<close>

theorem updateSize_keeps_snapIndex:
  "snapIndex (updateSize d c) = snapIndex c
    \<and> carouselItems (updateSize d c) = carouselItems c
    \<and> index (updateSize d c) = index c
    \<and> (dragger c \<noteq> None \<longrightarrow>
         animation (updateSize d c) =
           Some (itemWidth (updateSize d c) * real (length (carouselItems c)))
         \<and> gotoTweens (updateSize d c) = gotoTweens c @
             [\<lparr>tween_duration = 0.1, tween_delay = 0,
               tween_x = js_times (js_neg (snapIndex c)) (itemWidth (updateSize d c))\<rparr>])
    \<and> (dragger c = None \<longrightarrow> gotoTweens (updateSize d c) = gotoTweens c)"
proof -
  have s: "snapIndex (updateSize d c) = snapIndex c"
    and i: "carouselItems (updateSize d c) = carouselItems c"
    by (simp_all add: updateSize_fields)
  have x: "index (updateSize d c) = index c"
    by (simp add: index_def s i)
  have t: "dragger c \<noteq> None \<Longrightarrow>
      animation (updateSize d c) =
        Some (itemWidth (updateSize d c) * real (length (carouselItems c)))
      \<and> gotoTweens (updateSize d c) = gotoTweens c @
          [\<lparr>tween_duration = 0.1, tween_delay = 0,
            tween_x = js_times (js_neg (snapIndex c)) (itemWidth (updateSize d c))\<rparr>]"
    by (auto simp add: updateSize_def Let_def layout_fields goto_fields createAnimation_def
        goto_def stopAutoplay_def split: option.split)
  have n: "dragger c = None \<Longrightarrow> gotoTweens (updateSize d c) = gotoTweens c"
    by (simp add: updateSize_def Let_def layout_fields)
  from s i x t n show ?thesis by blast
qed

theorem updateSize_keeps_snapIndex_witness:
  "dragger (carousel5\<lparr>snapIndex := Inr 7\<rparr>) \<noteq> None
    \<and> snapIndex (updateSize dom_small (carousel5\<lparr>snapIndex := Inr 7\<rparr>)) = Inr 7
    \<and> index (updateSize dom_small (carousel5\<lparr>snapIndex := Inr 7\<rparr>)) = Inr 2
    \<and> gotoTweens (updateSize dom_small (carousel5\<lparr>snapIndex := Inr 7\<rparr>)) =
        [\<lparr>tween_duration = 0.1, tween_delay = 0, tween_x = Inr (- 280)\<rparr>]
    \<and> dragger (initial [0, 1, 2, 3, 4] default_options) = None
    \<and> snapIndex (updateSize dom5 (initial [0, 1, 2, 3, 4] default_options)) = Inr 0
    \<and> gotoTweens (updateSize dom5 (initial [0, 1, 2, 3, 4] default_options)) = []"
  using updateSize_keeps_snapIndex [of dom_small "carousel5\<lparr>snapIndex := Inr 7\<rparr>"]
    updateSize_keeps_snapIndex [of dom5 "initial [0, 1, 2, 3, 4] default_options"]
  by (simp add: carousel5_fields index_eq_mod updateSize_fields dom_small_def js_neg_def
      js_times_def)
     (simp add: scenario_defs)

subsection \<open>Bounds\<close>

text \<open>What \<open>getBounds\<close> returns, and the configuration of a draggable when it is
  created.\<close>

lemma getBounds_createDraggable:
  "(\<not> isInfinite (options c) \<longrightarrow>
      getBounds c = Some \<lparr>maxX = 0,
        minX = - (itemWidth c * real (length (carouselItems c)) - viewWidth c)\<rparr>
      \<and> dragger (createDraggable c) =
          Some \<lparr>dragger_x = 0, overshootTolerance = 0, dragger_bounds = getBounds c\<rparr>)
   \<and> (isInfinite (options c) \<longrightarrow>
      getBounds c = None
      \<and> dragger (createDraggable c) =
          Some \<lparr>dragger_x = 0, overshootTolerance = 1, dragger_bounds = None\<rparr>)"
  by (simp add: getBounds_def createDraggable_def)

lemma bounded5_fields:
  "carouselItems bounded5 = [0, 1, 2, 3, 4]"
  "itemWidth bounded5 = 100"
  "viewWidth bounded5 = 250"
  "isInfinite (options bounded5) = False"
  "dragger bounded5 =
     Some \<lparr>dragger_x = 0, overshootTolerance = 0,
           dragger_bounds = Some \<lparr>maxX = 0, minX = - 250\<rparr>\<rparr>"
  by (simp_all add: bounded5_def scenario_defs)

text \<open>
  C7: with \<open>isInfinite\<close> false the drag bounds are specified to be \<open>maxX = 0\<close> and
  \<open>minX = -(itemWidth * itemCount - viewWidth)\<close>. \<open>getBounds\<close> is called once, when the
  draggable is created, and \<open>updateSize\<close>, whose comment says that it resets all styles
  and bounds, does not compute them again. The bounded carousel of five items of width
  100 in a viewport of 250 is created with \<open>minX = -250\<close>; after a resize to items of
  width 40 in a viewport of 120 the draggable still has \<open>minX = -250\<close>, where the item
  and view widths give \<open>-80\<close>.
\<close>

theorem resize_leaves_stale_bounds:
  "\<not> isInfinite (options (updateSize dom_small bounded5))
    \<and> itemWidth (updateSize dom_small bounded5) = 40
    \<and> viewWidth (updateSize dom_small bounded5) = 120
    \<and> length (carouselItems (updateSize dom_small bounded5)) = 5
    \<and> map_option dragger_bounds (dragger (updateSize dom_small bounded5)) =
        Some (Some \<lparr>maxX = 0, minX = - 250\<rparr>)
    \<and> getBounds (updateSize dom_small bounded5) = Some \<lparr>maxX = 0, minX = - 80\<rparr>"
  by (simp add: updateSize_keeps_dragger updateSize_fields bounded5_fields getBounds_def
      dom_small_def)

subsection \<open>Previous and next\<close>

lemma rowStep_eq: "itemWidth c \<noteq> 0 \<Longrightarrow> rowStep c = Inr \<lfloor>viewWidth c / itemWidth c\<rfloor>"
  by (simp add: rowStep_def Math_floor_def js_div_def)

lemma next_fields:
  "snapIndex (next moveRow c) = js_add (snapIndex c) (if moveRow then rowStep c else Inr 1)"
  "carouselItems (next moveRow c) = carouselItems c"
  "itemWidth (next moveRow c) = itemWidth c"
  "viewWidth (next moveRow c) = viewWidth c"
  "gotoTweens (next moveRow c) = gotoTweens c @
     [\<lparr>tween_duration = gotoAnimation_duration (options c), tween_delay = 0,
       tween_x = js_times (js_neg (snapIndex (next moveRow c))) (itemWidth c)\<rparr>]"
  by (simp_all add: next_def goto_default_def goto_fields Let_def)

lemma previous_fields:
  "snapIndex (previous moveRow c) = js_sub (snapIndex c) (if moveRow then rowStep c else Inr 1)"
  "carouselItems (previous moveRow c) = carouselItems c"
  "itemWidth (previous moveRow c) = itemWidth c"
  "viewWidth (previous moveRow c) = viewWidth c"
  "gotoTweens (previous moveRow c) = gotoTweens c @
     [\<lparr>tween_duration = gotoAnimation_duration (options c), tween_delay = 0,
       tween_x = js_times (js_neg (snapIndex (previous moveRow c))) (itemWidth c)\<rparr>]"
  by (simp_all add: previous_def goto_default_def goto_fields Let_def)

text \<open>At the snap index \<open>2 ^ 53\<close> a call of \<open>next()\<close> leaves the snap index as it is:
  the sum \<open>2 ^ 53 + 1\<close> is not a double.\<close>

theorem previous_next_steps_counterexample:
  "snapIndex (carousel5\<lparr>snapIndex := Inr 9007199254740992\<rparr>) = Inr 9007199254740992
    \<and> snapIndex (next False (carousel5\<lparr>snapIndex := Inr 9007199254740992\<rparr>))
        = Inr 9007199254740992
    \<and> snapIndex (next False (carousel5\<lparr>snapIndex := Inr 9007199254740992\<rparr>))
        \<noteq> Inr (9007199254740992 + 1)"
  by (simp add: next_fields js_add_2_53)

text \<open>With an item width of zero \<open>previous(true)\<close> makes the snap index minus
  infinity and requests a tween to \<open>NaN\<close>.\<close>

lemma previous_zero_width:
  "snapIndex (previous True carousel0) = Inl NegInfinity"
  "map tween_x (gotoTweens (previous True carousel0)) = [Inl NaN]"
  by (simp_all add: previous_fields carousel0_fields rowStep_def js_div_def Math_floor_def
      js_sub_def js_neg_def js_add_def negate_def js_times_def scenario_defs carousel0_def)

text \<open>
  C8, amended: for a finite snap index \<open>s\<close> and the step \<open>d\<close>, which is 1 when \<open>moveRow\<close>
  is false and \<open>floor(viewWidth / itemWidth)\<close> when it is true (for a measured item
  width, not zero), with \<open>|s| + |d| \<le> 2 ^ 53\<close>: \<open>next(moveRow)\<close> changes the snap index to
  \<open>s + d\<close> and \<open>previous(moveRow)\<close> to \<open>s - d\<close>, and each then requests the tween to the
  position of the new snap index. In the scenario, \<open>next()\<close> from index 0 gives index 1
  at the position \<open>-100\<close>, and \<open>previous(true)\<close> from there moves back 2 items, to
  index 4.
\<close>

theorem previous_next_steps:
  assumes "moveRow \<longrightarrow> itemWidth c \<noteq> 0"
    and "snapIndex c = Inr s"
    and "\<bar>s\<bar> + \<bar>if moveRow then \<lfloor>viewWidth c / itemWidth c\<rfloor> else 1\<bar> \<le> 2 ^ 53"
  shows "snapIndex (next moveRow c)
        = Inr (s + (if moveRow then \<lfloor>viewWidth c / itemWidth c\<rfloor> else 1))
    \<and> carouselItems (next moveRow c) = carouselItems c
    \<and> gotoTweens (next moveRow c) = gotoTweens c @
        [\<lparr>tween_duration = gotoAnimation_duration (options c), tween_delay = 0,
          tween_x = Inr (of_int (s + (if moveRow then \<lfloor>viewWidth c / itemWidth c\<rfloor> else 1))
                          * - 1 * itemWidth c)\<rparr>]
    \<and> snapIndex (previous moveRow c)
        = Inr (s - (if moveRow then \<lfloor>viewWidth c / itemWidth c\<rfloor> else 1))
    \<and> carouselItems (previous moveRow c) = carouselItems c
    \<and> gotoTweens (previous moveRow c) = gotoTweens c @
        [\<lparr>tween_duration = gotoAnimation_duration (options c), tween_delay = 0,
          tween_x = Inr (of_int (s - (if moveRow then \<lfloor>viewWidth c / itemWidth c\<rfloor> else 1))
                          * - 1 * itemWidth c)\<rparr>]"
proof -
  define d where "d = (if moveRow then \<lfloor>viewWidth c / itemWidth c\<rfloor> else 1)"
  have step: "(if moveRow then rowStep c else Inr 1) = Inr d"
    using assms(1) by (simp add: d_def rowStep_eq)
  have b: "\<bar>s\<bar> + \<bar>d\<bar> \<le> 9007199254740992"
    using assms(3) by (simp add: d_def)
  have up: "js_add (Inr s) (Inr d) = Inr (s + d)"
    using b by (intro js_add_bounds) linarith+
  have down: "js_sub (Inr s) (Inr d) = Inr (s - d)"
    using b by (intro js_sub_bounds) linarith+
  have n: "snapIndex (next moveRow c) = Inr (s + d)"
    by (simp add: next_fields(1) step assms(2) up)
  have p: "snapIndex (previous moveRow c) = Inr (s - d)"
    by (simp add: previous_fields(1) step assms(2) down)
  have tn: "gotoTweens (next moveRow c) = gotoTweens c @
        [\<lparr>tween_duration = gotoAnimation_duration (options c), tween_delay = 0,
          tween_x = Inr (of_int (s + d) * - 1 * itemWidth c)\<rparr>]"
    unfolding next_fields(5) n by (simp add: js_neg_def js_times_def)
  have tp: "gotoTweens (previous moveRow c) = gotoTweens c @
        [\<lparr>tween_duration = gotoAnimation_duration (options c), tween_delay = 0,
          tween_x = Inr (of_int (s - d) * - 1 * itemWidth c)\<rparr>]"
    unfolding previous_fields(5) p by (simp add: js_neg_def js_times_def)
  from n p tn tp show ?thesis
    unfolding d_def by (simp add: next_fields(2) previous_fields(2))
qed

theorem previous_next_steps_witness:
  "itemWidth carousel5 \<noteq> 0 \<and> snapIndex carousel5 = Inr 0
    \<and> snapIndex (next False carousel5) = Inr 1
    \<and> index (next False carousel5) = Inr 1
    \<and> map tween_x (gotoTweens (next False carousel5)) = [Inr (- 100)]
    \<and> itemWidth (next False carousel5) \<noteq> 0
    \<and> snapIndex (previous True (next False carousel5)) = Inr (- 1)
    \<and> index (previous True (next False carousel5)) = Inr 4"
proof -
  let ?c1 = "next False carousel5"
  have f1: "snapIndex ?c1 = Inr 1" "map tween_x (gotoTweens ?c1) = [Inr (- 100)]"
    using previous_next_steps [of False carousel5 0]
    by (simp_all add: carousel5_fields)
  have g1: "itemWidth ?c1 = 100" "viewWidth ?c1 = 250" "carouselItems ?c1 = [0, 1, 2, 3, 4]"
    by (simp_all add: next_fields carousel5_fields)
  have f2: "snapIndex (previous True ?c1) = Inr (- 1)"
    using previous_next_steps [of True ?c1 1] by (simp add: f1 g1)
  have g2: "carouselItems (previous True ?c1) = [0, 1, 2, 3, 4]"
    by (simp add: previous_fields g1)
  have "index ?c1 = Inr 1"
    using index_eq_mod [of ?c1 1] by (simp add: f1 g1)
  moreover have "index (previous True ?c1) = Inr 4"
    using index_eq_mod [of "previous True ?c1" "- 1"] by (simp add: f2 g2)
  ultimately show ?thesis
    using f1 f2 g1 by (simp add: carousel5_fields)
qed

subsection \<open>In-view items\<close>

lemma indexOf_neg_iff: "(indexOf xs v < 0) = (v \<notin> set xs)"
  by (induction xs) (auto simp add: Let_def)

lemma indexOf_nonneg: "- 1 \<le> indexOf xs v"
  by (induction xs) (auto simp add: Let_def)

lemma splice1_indexOf:
  "v \<in> set xs \<Longrightarrow> splice1 xs (nat (indexOf xs v)) = remove1 v xs"
proof (induction xs)
  case Nil
  then show ?case by simp
next
  case (Cons y ys)
  show ?case
  proof (cases "y = v")
    case True
    then show ?thesis by (simp add: splice1_def)
  next
    case False
    with Cons.prems have v: "v \<in> set ys" by simp
    then have "\<not> indexOf ys v < 0" by (simp add: indexOf_neg_iff)
    then have "nat (indexOf (y # ys) v) = Suc (nat (indexOf ys v))"
      using False by (simp add: Let_def nat_add_distrib)
    moreover have "splice1 ys (nat (indexOf ys v)) = remove1 v ys"
      using v by (rule Cons.IH)
    ultimately show ?thesis using False by (simp add: splice1_def)
  qed
qed

lemma addInViewItem_fields:
  "inViewIndexes (addInViewItem target v c) =
     (if indexOf (carouselItems c) target \<in> set (inViewIndexes c) then inViewIndexes c
      else inViewIndexes c @ [indexOf (carouselItems c) target])"
  "events (addInViewItem target v c) =
     events c @
     (if indexOf (carouselItems c) target \<in> set (inViewIndexes c) then []
      else [ITEM_IN_VIEW (indexOf (carouselItems c) target)]) @
     [ITEM_IN_VIEW_PROGRESS (lodash_clamp (js_div v (viewWidth c + itemWidth c)) 0 1)
        (indexOf (carouselItems c) target)]"
  by (simp_all add: addInViewItem_def dispatchEvent_def Let_def indexOf_neg_iff)

lemma removeInViewItem_fields:
  "inViewIndexes (removeInViewItem target c) =
     remove1 (indexOf (carouselItems c) target) (inViewIndexes c)"
  "events (removeInViewItem target c) =
     events c @
     (if indexOf (carouselItems c) target \<in> set (inViewIndexes c)
      then [ITEM_OUT_VIEW (indexOf (carouselItems c) target)] else [])"
proof -
  let ?i = "indexOf (carouselItems c) target"
  have gt: "(indexOf (inViewIndexes c) ?i > - 1) = (?i \<in> set (inViewIndexes c))"
    using indexOf_neg_iff [of "inViewIndexes c" ?i] indexOf_nonneg [of "inViewIndexes c" ?i]
    by linarith
  show "inViewIndexes (removeInViewItem target c) = remove1 ?i (inViewIndexes c)"
    by (simp add: removeInViewItem_def dispatchEvent_def Let_def gt splice1_indexOf
        remove1_idem)
  show "events (removeInViewItem target c) =
     events c @ (if ?i \<in> set (inViewIndexes c) then [ITEM_OUT_VIEW ?i] else [])"
    by (simp add: removeInViewItem_def dispatchEvent_def Let_def gt)
qed

lemma clamp_progress:
  assumes "0 < v" "v < w"
  shows "lodash_clamp (js_div v w) 0 1 = Inr (v / w)" "0 \<le> v / w" "v / w \<le> 1"
  using assms by (simp_all add: lodash_clamp_def js_div_def Let_def)

lemma getAnimationModifier_fst:
  "fst (getAnimationModifier x target c) =
     js_rem x (itemWidth c * real (length (carouselItems c)))"
  by (simp add: getAnimationModifier_def Let_def)

lemma getAnimationModifier_inViewIndexes:
  "inViewIndexes (snd (getAnimationModifier x target c)) =
     (case js_rem x (itemWidth c * real (length (carouselItems c))) of
        Inr v \<Rightarrow>
          if 0 < v \<and> v < viewWidth c + itemWidth c
          then (if indexOf (carouselItems c) target \<in> set (inViewIndexes c) then inViewIndexes c
                else inViewIndexes c @ [indexOf (carouselItems c) target])
          else remove1 (indexOf (carouselItems c) target) (inViewIndexes c)
      | Inl e \<Rightarrow> remove1 (indexOf (carouselItems c) target) (inViewIndexes c))"
  by (simp add: getAnimationModifier_def Let_def addInViewItem_fields removeInViewItem_fields
      split: sum.split)

lemma getAnimationModifier_events:
  "events (snd (getAnimationModifier x target c)) =
     events c @
     (case js_rem x (itemWidth c * real (length (carouselItems c))) of
        Inr v \<Rightarrow>
          if 0 < v \<and> v < viewWidth c + itemWidth c
          then (if indexOf (carouselItems c) target \<in> set (inViewIndexes c) then []
                else [ITEM_IN_VIEW (indexOf (carouselItems c) target)]) @
               [ITEM_IN_VIEW_PROGRESS (Inr (v / (viewWidth c + itemWidth c)))
                  (indexOf (carouselItems c) target)]
          else (if indexOf (carouselItems c) target \<in> set (inViewIndexes c)
                then [ITEM_OUT_VIEW (indexOf (carouselItems c) target)] else [])
      | Inl e \<Rightarrow>
          (if indexOf (carouselItems c) target \<in> set (inViewIndexes c)
           then [ITEM_OUT_VIEW (indexOf (carouselItems c) target)] else []))"
  by (simp add: getAnimationModifier_def Let_def addInViewItem_fields removeInViewItem_fields
      clamp_progress split: sum.split)


text \<open>An item that stays in view gets a progress event and no second \<open>ITEM_IN_VIEW\<close>.\<close>

lemma in_view_no_duplicate:
  assumes "indexOf (carouselItems c) target \<in> set (inViewIndexes c)"
    and "js_rem x (itemWidth c * real (length (carouselItems c))) = Inr v"
    and "0 < v" "v < viewWidth c + itemWidth c"
  shows "events (snd (getAnimationModifier x target c)) =
     events c @ [ITEM_IN_VIEW_PROGRESS (Inr (v / (viewWidth c + itemWidth c)))
                   (indexOf (carouselItems c) target)]"
  using assms by (simp add: getAnimationModifier_events)

text \<open>Only the modifier changes the list of in-view indexes, and it keeps the list free
  of duplicates.\<close>

lemma inViewIndexes_frame:
  "inViewIndexes (stopAutoplay c) = inViewIndexes c"
  "inViewIndexes (startAutoplay c) = inViewIndexes c"
  "inViewIndexes (dispatchEvent e c) = inViewIndexes c"
  "inViewIndexes (goto i duration delay c) = inViewIndexes c"
  "inViewIndexes (goto_default i c) = inViewIndexes c"
  "inViewIndexes (createAnimation c) = inViewIndexes c"
  "inViewIndexes (createDraggable c) = inViewIndexes c"
  "inViewIndexes (setItemPositions (setWrapperHeight (setItemDimensions d c))) = inViewIndexes c"
  by (simp_all add: stopAutoplay_def startAutoplay_def dispatchEvent_def goto_def
      goto_default_def createAnimation_def createDraggable_def setItemPositions_def
      setWrapperHeight_def setItemDimensions_def Let_def split: option.split list.split)

lemma inViewIndexes_updateSize: "inViewIndexes (updateSize d c) = inViewIndexes c"
  by (simp add: updateSize_def Let_def inViewIndexes_frame split: option.split)

lemma inViewIndexes_constructor: "inViewIndexes (constructor d items opts) = []"
  by (simp add: constructor_def inViewIndexes_frame inViewIndexes_updateSize initial_def)

lemma inViewIndexes_next: "inViewIndexes (next moveRow c) = inViewIndexes c"
  by (simp add: next_def Let_def inViewIndexes_frame)

lemma inViewIndexes_previous: "inViewIndexes (previous moveRow c) = inViewIndexes c"
  by (simp add: previous_def Let_def inViewIndexes_frame)

lemma inViewIndexes_activate: "activate i c = Some c' \<Longrightarrow> inViewIndexes c' = inViewIndexes c"
  by (auto simp add: activate_def Let_def inViewIndexes_frame split: bind_splits)

lemma inViewIndexes_getSnap: "inViewIndexes (snd (getSnap endValue c)) = inViewIndexes c"
  by (simp add: getSnap_def Let_def)

lemma inViewIndexes_onThrowComplete: "inViewIndexes (onThrowComplete c) = inViewIndexes c"
  by (simp add: onThrowComplete_def Let_def inViewIndexes_frame)

lemma reachable_distinct: "reachable c \<Longrightarrow> distinct (inViewIndexes c)"
proof (induction rule: reachable.induct)
  case (modified c x target)
  then show ?case
    by (simp add: getAnimationModifier_inViewIndexes distinct_remove1 indexOf_neg_iff
        split: sum.split)
qed (simp_all add: inViewIndexes_constructor inViewIndexes_updateSize inViewIndexes_next
      inViewIndexes_previous inViewIndexes_activate inViewIndexes_getSnap
      inViewIndexes_onThrowComplete inViewIndexes_frame goto_onStart_def goto_onComplete_def)

text \<open>
  C6: in every state of a controller, after the modifier has run for an item, the item's
  index is in the in-view list exactly when its wrapped position lies in the open
  interval \<open>(0, viewWidth + itemWidth)\<close>, and the membership of the other items is
  unchanged. The call dispatches \<open>ITEM_IN_VIEW\<close> once when the item enters the interval
  and not while it stays inside, \<open>ITEM_OUT_VIEW\<close> once when it leaves and not while it
  stays outside, and, whenever the position is inside, \<open>ITEM_IN_VIEW_PROGRESS\<close> with the
  progress \<open>wrappedX / (viewWidth + itemWidth)\<close> clamped to \<open>[0, 1]\<close>.
\<close>

theorem in_view_tracking:
  assumes "reachable c"
    and "getAnimationModifier x target c = (newX, c')"
    and "i = indexOf (carouselItems c) target"
  shows "newX = js_rem x (itemWidth c * real (length (carouselItems c)))
    \<and> (i \<in> set (inViewIndexes c')) =
        (\<exists>v. newX = Inr v \<and> 0 < v \<and> v < viewWidth c + itemWidth c)
    \<and> (\<forall>j. j \<noteq> i \<longrightarrow> (j \<in> set (inViewIndexes c')) = (j \<in> set (inViewIndexes c)))
    \<and> (\<forall>v. newX = Inr v \<and> 0 < v \<and> v < viewWidth c + itemWidth c \<longrightarrow>
          events c' = events c
            @ (if i \<in> set (inViewIndexes c) then [] else [ITEM_IN_VIEW i])
            @ [ITEM_IN_VIEW_PROGRESS (Inr (max 0 (min 1 (v / (viewWidth c + itemWidth c))))) i])
    \<and> (\<not> (\<exists>v. newX = Inr v \<and> 0 < v \<and> v < viewWidth c + itemWidth c) \<longrightarrow>
          events c' = events c @ (if i \<in> set (inViewIndexes c) then [ITEM_OUT_VIEW i] else []))
    \<and> reachable c'"
proof -
  have d: "distinct (inViewIndexes c)"
    using assms(1) by (rule reachable_distinct)
  have newX: "newX = js_rem x (itemWidth c * real (length (carouselItems c)))"
    using assms(2) getAnimationModifier_fst [of x target c] by simp
  have c': "c' = snd (getAnimationModifier x target c)"
    using assms(2) by simp
  have r: "reachable c'"
    unfolding c' using assms(1) by (rule reachable.modified)
  have ix: "inViewIndexes c' =
     (case newX of
        Inr v \<Rightarrow>
          if 0 < v \<and> v < viewWidth c + itemWidth c
          then (if i \<in> set (inViewIndexes c) then inViewIndexes c else inViewIndexes c @ [i])
          else remove1 i (inViewIndexes c)
      | Inl e \<Rightarrow> remove1 i (inViewIndexes c))"
    unfolding c' newX assms(3) by (rule getAnimationModifier_inViewIndexes)
  have ev: "events c' = events c @
     (case newX of
        Inr v \<Rightarrow>
          if 0 < v \<and> v < viewWidth c + itemWidth c
          then (if i \<in> set (inViewIndexes c) then [] else [ITEM_IN_VIEW i]) @
               [ITEM_IN_VIEW_PROGRESS (Inr (v / (viewWidth c + itemWidth c))) i]
          else (if i \<in> set (inViewIndexes c) then [ITEM_OUT_VIEW i] else [])
      | Inl e \<Rightarrow> (if i \<in> set (inViewIndexes c) then [ITEM_OUT_VIEW i] else []))"
    unfolding c' newX assms(3) by (rule getAnimationModifier_events)
  have member: "(i \<in> set (inViewIndexes c')) =
        (\<exists>v. newX = Inr v \<and> 0 < v \<and> v < viewWidth c + itemWidth c)"
    using d by (cases newX) (auto simp add: ix)
  have others: "\<forall>j. j \<noteq> i \<longrightarrow> (j \<in> set (inViewIndexes c')) = (j \<in> set (inViewIndexes c))"
    using d by (cases newX) (auto simp add: ix)
  have inside: "\<forall>v. newX = Inr v \<and> 0 < v \<and> v < viewWidth c + itemWidth c \<longrightarrow>
          events c' = events c
            @ (if i \<in> set (inViewIndexes c) then [] else [ITEM_IN_VIEW i])
            @ [ITEM_IN_VIEW_PROGRESS (Inr (max 0 (min 1 (v / (viewWidth c + itemWidth c))))) i]"
  proof (intro allI impI)
    fix v
    assume v: "newX = Inr v \<and> 0 < v \<and> v < viewWidth c + itemWidth c"
    then have "0 \<le> v / (viewWidth c + itemWidth c)" "v / (viewWidth c + itemWidth c) \<le> 1"
      by (simp_all add: clamp_progress)
    then have "max 0 (min 1 (v / (viewWidth c + itemWidth c))) = v / (viewWidth c + itemWidth c)"
      by simp
    with v show "events c' = events c
            @ (if i \<in> set (inViewIndexes c) then [] else [ITEM_IN_VIEW i])
            @ [ITEM_IN_VIEW_PROGRESS (Inr (max 0 (min 1 (v / (viewWidth c + itemWidth c))))) i]"
      by (simp add: ev)
  qed
  have outside: "\<not> (\<exists>v. newX = Inr v \<and> 0 < v \<and> v < viewWidth c + itemWidth c) \<longrightarrow>
          events c' = events c @ (if i \<in> set (inViewIndexes c) then [ITEM_OUT_VIEW i] else [])"
    by (cases newX) (auto simp add: ev)
  from newX member others inside outside r show ?thesis
    by (intro conjI)
qed

lemma reachable_carousel5: "reachable carousel5"
  unfolding carousel5_def by (rule reachable.constructed)

lemma js_rem_scenario:
  "js_rem 100 500 = Inr 100" "js_rem 150 500 = Inr 150" "js_rem 400 500 = Inr 400"
  by (simp_all add: js_rem_def js_trunc_def)

lemma modifier_frame:
  "carouselItems (snd (getAnimationModifier x target c)) = carouselItems c"
  "itemWidth (snd (getAnimationModifier x target c)) = itemWidth c"
  "viewWidth (snd (getAnimationModifier x target c)) = viewWidth c"
  by (simp_all add: getAnimationModifier_def addInViewItem_def removeInViewItem_def
      dispatchEvent_def Let_def split: sum.split)

theorem in_view_tracking_witness:
  "reachable carousel5
    \<and> fst (getAnimationModifier 100 0 carousel5) = Inr 100
    \<and> inViewIndexes (snd (getAnimationModifier 100 0 carousel5)) = [0]
    \<and> events (snd (getAnimationModifier 100 0 carousel5)) =
        [ITEM_IN_VIEW 0, ITEM_IN_VIEW_PROGRESS (Inr (2 / 7)) 0]
    \<and> events (snd (getAnimationModifier 150 0 (snd (getAnimationModifier 100 0 carousel5)))) =
        [ITEM_IN_VIEW 0, ITEM_IN_VIEW_PROGRESS (Inr (2 / 7)) 0,
         ITEM_IN_VIEW_PROGRESS (Inr (3 / 7)) 0]
    \<and> events (snd (getAnimationModifier 400 0 (snd (getAnimationModifier 100 0 carousel5)))) =
        [ITEM_IN_VIEW 0, ITEM_IN_VIEW_PROGRESS (Inr (2 / 7)) 0, ITEM_OUT_VIEW 0]
    \<and> inViewIndexes (snd (getAnimationModifier 400 0 (snd (getAnimationModifier 100 0 carousel5))))
        = []"
proof -
  let ?r = "getAnimationModifier 100 0 carousel5"
  let ?s = "getAnimationModifier 150 0 (snd ?r)"
  let ?t = "getAnimationModifier 400 0 (snd ?r)"
  have gr: "?r = (fst ?r, snd ?r)" and gs: "?s = (fst ?s, snd ?s)"
    and gt: "?t = (fst ?t, snd ?t)"
    by simp_all
  have i: "0 = indexOf (carouselItems carousel5) 0"
    by (simp add: carousel5_fields)
  have f: "fst ?r = Inr 100"
    by (simp add: getAnimationModifier_fst carousel5_fields js_rem_scenario)
  have x: "inViewIndexes (snd ?r) = [0]"
    by (simp add: getAnimationModifier_inViewIndexes carousel5_fields js_rem_scenario)
  have step1: "events (snd ?r) = [ITEM_IN_VIEW 0, ITEM_IN_VIEW_PROGRESS (Inr (2 / 7)) 0]
      \<and> reachable (snd ?r)"
    using in_view_tracking [OF reachable_carousel5 gr i]
    by (simp add: f carousel5_fields)
  have i1: "0 = indexOf (carouselItems (snd ?r)) 0"
    by (simp add: modifier_frame carousel5_fields)
  have fs: "fst ?s = Inr 150"
    by (simp add: getAnimationModifier_fst modifier_frame carousel5_fields js_rem_scenario)
  have ft: "fst ?t = Inr 400"
    by (simp add: getAnimationModifier_fst modifier_frame carousel5_fields js_rem_scenario)
  have step2: "events (snd ?s) = [ITEM_IN_VIEW 0, ITEM_IN_VIEW_PROGRESS (Inr (2 / 7)) 0,
         ITEM_IN_VIEW_PROGRESS (Inr (3 / 7)) 0]"
    using in_view_tracking [OF conjunct2 [OF step1] gs i1]
    by (simp add: fs x step1 modifier_frame carousel5_fields)
  have step3: "events (snd ?t) = [ITEM_IN_VIEW 0, ITEM_IN_VIEW_PROGRESS (Inr (2 / 7)) 0,
         ITEM_OUT_VIEW 0]"
    using in_view_tracking [OF conjunct2 [OF step1] gt i1]
    by (simp add: ft x step1 modifier_frame carousel5_fields)
  have left: "inViewIndexes (snd ?t) = []"
    by (subst getAnimationModifier_inViewIndexes)
       (simp add: modifier_frame x carousel5_fields js_rem_scenario)
  from reachable_carousel5 f x step1 step2 step3 left show ?thesis
    by simp
qed

end
